theory Spec2Isabelle
  imports Main "HOL-Library.Char_ord" "HOL-Library.List_Lexorder"
begin

section \<open>Python values handled by \<open>sonnet/python/ops/nest.py\<close>\<close>

text \<open>
  The module is dynamically typed. The values it distinguishes are modelled by one
  datatype: integers, \<open>None\<close> and the floats that are NaN (objects on which \<open>iter\<close>
  raises \<open>TypeError\<close>), strings, numpy arrays (one-dimensional, of integers) and tensor handles (the three
  kinds that \<open>is_iterable\<close> rejects by \<open>isinstance\<close>), and the containers named by the
  docstring of \<open>_iterable_like\<close>: \<open>list\<close>, \<open>tuple\<close>, namedtuples, \<open>dict\<close> and
  \<open>collections.OrderedDict\<close>.

  A dictionary is an association list in its native iteration order; a Python dictionary
  has no repeated key, which is the invariant \<open>wellformed\<close> below. Dictionary keys are
  integers, strings or NaN floats. A NaN is given by the identity of its object: it is
  equal to no other object, and a dictionary finds it by identity. A namedtuple carries
  its type name, its \<open>_fields\<close> and its values.
  The semantics of the builtins is that of Python 3 (the module is written against
  \<open>six\<close>): comparing a number with a string raises \<open>TypeError\<close>.
\<close>

datatype key = KInt int | KStr string | KNaN nat

datatype dict_kind = PlainDict | OrderedDict

datatype val =
    VInt int
  | VNaN nat
  | VNone
  | VStr string
  | VNdarray "int list"
  | VTensor nat
  | VList "val list"
  | VTuple "val list"
  | VNamedTuple string "string list" "val list"
  | VDict dict_kind "(key \<times> val) list"

text \<open>
  Exceptions are values. A \<open>ValueError\<close> raised with a \<open>%\<close>-formatted message is kept
  as the format string of the source together with the arguments substituted into it
  (\<open>%d\<close> a count, \<open>%s\<close> the value that \<open>str\<close> would render).
\<close>

datatype fmt_arg = ArgD nat | ArgS val

datatype error =
    TypeError string
  | ValueError string "fmt_arg list"
  | IndexError
  | KeyError key

subsection \<open>Builtins: \<open><\<close>, \<open>sorted\<close>, \<open>iter\<close>, \<open>len\<close>, indexing, dictionary lookup\<close>

text \<open>
  \<open>a < b\<close> on keys. Between two integers and between two strings it is their order.
  Between a number and a string it raises \<open>TypeError\<close>. With a NaN on either side and
  a number on the other it returns \<open>False\<close>: it raises nothing and orders nothing.
\<close>

fun key_lt :: "key \<Rightarrow> key \<Rightarrow> error + bool" where
  "key_lt (KInt a) (KInt b) = Inr (a < b)"
| "key_lt (KStr a) (KStr b) = Inr (a < b)"
| "key_lt (KInt a) (KStr b) = Inl (TypeError ''< not supported between instances of int and str'')"
| "key_lt (KStr a) (KInt b) = Inl (TypeError ''< not supported between instances of str and int'')"
| "key_lt (KNaN a) (KNaN b) = Inr False"
| "key_lt (KNaN a) (KInt b) = Inr False"
| "key_lt (KInt a) (KNaN b) = Inr False"
| "key_lt (KNaN a) (KStr b) = Inl (TypeError ''< not supported between instances of float and str'')"
| "key_lt (KStr a) (KNaN b) = Inl (TypeError ''< not supported between instances of str and float'')"

text \<open>
  \<open>sorted\<close> is a stable comparison sort that calls \<open><\<close> and lets the exception of a
  failing comparison through. It is modelled by insertion sort: starting from the last,
  each element \<open>x\<close> is placed into the sorted rest, behind the elements \<open>y\<close> with
  \<open>y < x\<close> and in front of the first one that is not less, so that elements which
  \<open><\<close> does not order keep their places. On two elements the one comparison is
  \<open>second < first\<close>, as in CPython. Where \<open><\<close> orders the elements totally, every
  sorting algorithm returns the same list. Where \<open><\<close> raises for two elements of the
  list, \<open>sorted\<close> raises: the pairs for which \<open><\<close> returns form an equivalence on
  keys, and a comparison sort compares elements across the classes of its list. Where
  \<open><\<close> raises nothing and leaves elements unordered, the places of the elements of a
  list longer than two depend on the algorithm; no property below depends on them.
\<close>

fun py_insert :: "key \<Rightarrow> key list \<Rightarrow> error + key list" where
  "py_insert x [] = Inr [x]"
| "py_insert x (y # ys) =
     (case key_lt y x of
        Inl e \<Rightarrow> Inl e
      | Inr lt \<Rightarrow>
          if lt then (case py_insert x ys of Inl e \<Rightarrow> Inl e | Inr zs \<Rightarrow> Inr (y # zs))
          else Inr (x # y # ys))"

fun py_sorted :: "key list \<Rightarrow> error + key list" where
  "py_sorted [] = Inr []"
| "py_sorted (x # xs) =
     (case py_sorted xs of Inl e \<Rightarrow> Inl e | Inr ys \<Rightarrow> py_insert x ys)"

text \<open>
  \<open>iter(v)\<close>, given as the list of items the iterator yields. Iterating a dictionary
  yields its keys; a tensor handle defines \<open>__iter__\<close> to raise \<open>TypeError\<close>.
\<close>

fun key_val :: "key \<Rightarrow> val" where
  "key_val (KInt i) = VInt i"
| "key_val (KStr s) = VStr s"
| "key_val (KNaN n) = VNaN n"

fun py_iter :: "val \<Rightarrow> error + val list" where
  "py_iter (VInt i) = Inl (TypeError ''int object is not iterable'')"
| "py_iter (VNaN i) = Inl (TypeError ''float object is not iterable'')"
| "py_iter VNone = Inl (TypeError ''NoneType object is not iterable'')"
| "py_iter (VStr s) = Inr (map (\<lambda>c. VStr [c]) s)"
| "py_iter (VNdarray a) = Inr (map VInt a)"
| "py_iter (VTensor h) = Inl (TypeError ''Tensor object is not iterable.'')"
| "py_iter (VList xs) = Inr xs"
| "py_iter (VTuple xs) = Inr xs"
| "py_iter (VNamedTuple n fs xs) = Inr xs"
| "py_iter (VDict k d) = Inr (map (key_val \<circ> fst) d)"

fun py_len :: "val \<Rightarrow> error + nat" where
  "py_len (VInt i) = Inl (TypeError ''object of type int has no len()'')"
| "py_len (VNaN i) = Inl (TypeError ''object of type float has no len()'')"
| "py_len VNone = Inl (TypeError ''object of type NoneType has no len()'')"
| "py_len (VStr s) = Inr (length s)"
| "py_len (VNdarray a) = Inr (length a)"
| "py_len (VTensor h) = Inl (TypeError ''object of type Tensor has no len()'')"
| "py_len (VList xs) = Inr (length xs)"
| "py_len (VTuple xs) = Inr (length xs)"
| "py_len (VNamedTuple n fs xs) = Inr (length xs)"
| "py_len (VDict k d) = Inr (length d)"

text \<open>\<open>d[k]\<close> on a dictionary: \<open>KeyError\<close> for a missing key.\<close>

definition dict_getitem :: "(key \<rightharpoonup> val) \<Rightarrow> key \<Rightarrow> error + val" where
  "dict_getitem m k = (case m k of None \<Rightarrow> Inl (KeyError k) | Some v \<Rightarrow> Inr v)"

definition seq_getitem :: "val list \<Rightarrow> nat \<Rightarrow> error + val" where
  "seq_getitem xs i = (if i < length xs then Inr (xs ! i) else Inl IndexError)"

text \<open>
  \<open>v[i]\<close> for the index \<open>i \<ge> 0\<close> that the packer counts up from \<open>0\<close>: positional on
  sequences, a lookup of the key \<open>i\<close> on a dictionary.
\<close>

fun py_getitem :: "val \<Rightarrow> nat \<Rightarrow> error + val" where
  "py_getitem (VInt i) n = Inl (TypeError ''int object is not subscriptable'')"
| "py_getitem (VNaN i) n = Inl (TypeError ''float object is not subscriptable'')"
| "py_getitem VNone n = Inl (TypeError ''NoneType object is not subscriptable'')"
| "py_getitem (VStr s) n = seq_getitem (map (\<lambda>c. VStr [c]) s) n"
| "py_getitem (VNdarray a) n = seq_getitem (map VInt a) n"
| "py_getitem (VTensor h) n = Inl (TypeError ''Tensor object is not subscriptable'')"
| "py_getitem (VList xs) n = seq_getitem xs n"
| "py_getitem (VTuple xs) n = seq_getitem xs n"
| "py_getitem (VNamedTuple nm fs xs) n = seq_getitem xs n"
| "py_getitem (VDict k d) n = dict_getitem (map_of d) (KInt (int n))"

section \<open>The module\<close>

subsection \<open>\<open>_sorted\<close>\<close>

text \<open>
  \<^verbatim>\<open>
  def _sorted(dict_):
    try:
      return sorted(_six.iterkeys(dict_))
    except TypeError:
      raise TypeError("nest only supports dicts with sortable keys.")
  \<close>
\<close>

definition sorted_keys :: "(key \<times> val) list \<Rightarrow> error + key list" where
  "sorted_keys dct =
     (case py_sorted (map fst dct) of
        Inl (TypeError m) \<Rightarrow> Inl (TypeError ''nest only supports dicts with sortable keys.'')
      | Inl e \<Rightarrow> Inl e
      | Inr ks \<Rightarrow> Inr ks)"

subsection \<open>\<open>is_iterable\<close>\<close>

text \<open>
  \<^verbatim>\<open>
  def is_iterable(seq):
    if (isinstance(seq, _six.string_types) or isinstance(seq, np.ndarray)
        or isinstance(seq, tf.Tensor)):
      return False
    try:
      iter(seq)
      return True
    except TypeError:
      return False
  \<close>
  Only \<open>TypeError\<close> is caught; any other exception of \<open>iter\<close> would leave the function.
\<close>

fun is_string :: "val \<Rightarrow> bool" where
  "is_string (VStr s) = True"
| "is_string v = False"

fun is_ndarray :: "val \<Rightarrow> bool" where
  "is_ndarray (VNdarray a) = True"
| "is_ndarray v = False"

fun is_tensor :: "val \<Rightarrow> bool" where
  "is_tensor (VTensor h) = True"
| "is_tensor v = False"

definition is_iterable :: "val \<Rightarrow> error + bool" where
  "is_iterable seq =
     (if is_string seq \<or> is_ndarray seq \<or> is_tensor seq then Inr False
      else (case py_iter seq of
              Inr it \<Rightarrow> Inr True
            | Inl (TypeError m) \<Rightarrow> Inr False
            | Inl e \<Rightarrow> Inl e))"

text \<open>
  The traversals call \<open>is_iterable\<close> on the values above. The function is public and
  takes any object. An object of another class is given by what \<open>iter\<close> does on it:
  it returns an iterator, or it raises the exception that the \<open>__iter__\<close> of the class
  raises (on a closed file, \<open>ValueError\<close>). Such a class is not derived from \<open>str\<close>,
  \<open>numpy.ndarray\<close> or \<open>tf.Tensor\<close>. \<open>is_iterable_object\<close> is the function on any
  object; on the values above it is \<open>is_iterable\<close>.
\<close>

datatype iter_result = Iterator | Raises error

datatype pyobject = Value val | Instance iter_result

fun object_iter :: "pyobject \<Rightarrow> error + unit" where
  "object_iter (Value v) = (case py_iter v of Inl e \<Rightarrow> Inl e | Inr it \<Rightarrow> Inr ())"
| "object_iter (Instance Iterator) = Inr ()"
| "object_iter (Instance (Raises e)) = Inl e"

fun isinstance_leaf :: "pyobject \<Rightarrow> bool" where
  "isinstance_leaf (Value v) = (is_string v \<or> is_ndarray v \<or> is_tensor v)"
| "isinstance_leaf (Instance r) = False"

definition is_iterable_object :: "pyobject \<Rightarrow> error + bool" where
  "is_iterable_object seq =
     (if isinstance_leaf seq then Inr False
      else (case object_iter seq of
              Inr it \<Rightarrow> Inr True
            | Inl (TypeError m) \<Rightarrow> Inr False
            | Inl e \<Rightarrow> Inl e))"

subsection \<open>\<open>_yield_value_from_iterable\<close>\<close>

text \<open>
  \<^verbatim>\<open>
  def _yield_value_from_iterable(iterable):
    if isinstance(iterable, dict):
      for key in _sorted(iterable):
        yield iterable[key]
    else:
      for value in iterable:
        yield value
  \<close>
  The generator is given by the list of values it yields, or by the exception that
  ends it.
\<close>

fun lookup_each :: "(key \<rightharpoonup> val) \<Rightarrow> key list \<Rightarrow> error + val list" where
  "lookup_each m [] = Inr []"
| "lookup_each m (k # ks) =
     (case dict_getitem m k of
        Inl e \<Rightarrow> Inl e
      | Inr v \<Rightarrow> (case lookup_each m ks of Inl e \<Rightarrow> Inl e | Inr vs \<Rightarrow> Inr (v # vs)))"

fun yield_value_from_iterable :: "val \<Rightarrow> error + val list" where
  "yield_value_from_iterable (VDict k d) =
     (case sorted_keys d of Inl e \<Rightarrow> Inl e | Inr ks \<Rightarrow> lookup_each (map_of d) ks)"
| "yield_value_from_iterable v = py_iter v"

subsection \<open>\<open>_iterable_like\<close>\<close>

text \<open>
  \<^verbatim>\<open>
  def _iterable_like(instance, args):
    if isinstance(instance, dict):
      result = dict(zip(_sorted(instance), args))
      return type(instance)((key, result[key]) for key in _six.iterkeys(instance))
    elif (isinstance(instance, tuple) and
          hasattr(instance, "_fields") and
          isinstance(instance._fields, _collections.Sequence) and
          all(isinstance(f, _six.string_types) for f in instance._fields)):
      # This is a namedtuple
      return type(instance)(*args)
    else:
      # Not a namedtuple
      return type(instance)(args)
  \<close>
  \<open>dict(zip(ks, args))\<close> is the map \<open>Map.empty(ks [\<mapsto>] args)\<close>: \<open>zip\<close> stops at the
  shorter list and a later pair overrides an earlier one. The new dictionary is built
  from the keys of \<open>instance\<close> in their native order, each looked up in \<open>result\<close>.
  The constructor of a namedtuple raises \<open>TypeError\<close> unless it gets one argument per
  field. Both call sites pass an \<open>instance\<close> for which \<open>is_iterable\<close> returned
  \<open>True\<close>, a container. The last equation, for the other kinds, is never reached; it
  is the \<open>TypeError\<close> with which \<open>int\<close> and \<open>float\<close> reject a list (\<open>str\<close> would
  return a rendering of the list).
\<close>

fun build_items :: "(key \<rightharpoonup> val) \<Rightarrow> key list \<Rightarrow> error + (key \<times> val) list" where
  "build_items result [] = Inr []"
| "build_items result (k # ks) =
     (case dict_getitem result k of
        Inl e \<Rightarrow> Inl e
      | Inr v \<Rightarrow>
          (case build_items result ks of Inl e \<Rightarrow> Inl e | Inr kvs \<Rightarrow> Inr ((k, v) # kvs)))"

fun iterable_like :: "val \<Rightarrow> val list \<Rightarrow> error + val" where
  "iterable_like (VDict kd d) args =
     (case sorted_keys d of
        Inl e \<Rightarrow> Inl e
      | Inr ks \<Rightarrow>
          (case build_items (Map.empty(ks [\<mapsto>] args)) (map fst d) of
             Inl e \<Rightarrow> Inl e
           | Inr kvs \<Rightarrow> Inr (VDict kd kvs)))"
| "iterable_like (VNamedTuple n fs xs) args =
     (if length args = length fs then Inr (VNamedTuple n fs args)
      else Inl (TypeError ''__new__() got a wrong number of positional arguments''))"
| "iterable_like (VList xs) args = Inr (VList args)"
| "iterable_like (VTuple xs) args = Inr (VTuple args)"
| "iterable_like v args = Inl (TypeError ''constructor does not accept a list'')"

section \<open>Termination of the two traversals\<close>

text \<open>
  \<open>composite\<close> names the four container kinds. The recursion of both traversals goes
  from a value to the values that \<open>_yield_value_from_iterable\<close> yields for it, and
  descends only into those for which \<open>is_iterable\<close> returns \<open>True\<close>; such a value is
  a container and strictly smaller than the container that holds it.
\<close>

fun composite :: "val \<Rightarrow> bool" where
  "composite (VList xs) = True"
| "composite (VTuple xs) = True"
| "composite (VNamedTuple n fs xs) = True"
| "composite (VDict k d) = True"
| "composite v = False"

lemma is_iterable_composite: "is_iterable v = Inr (composite v)"
  by (cases v) (simp_all add: is_iterable_def)





lemma sorted_keys_Inr: "sorted_keys d = Inr ks \<longleftrightarrow> py_sorted (map fst d) = Inr ks"
  by (simp add: sorted_keys_def split: sum.split error.split)

lemma lookup_each_set: "lookup_each (map_of d) ks = Inr vs \<Longrightarrow> v \<in> set vs \<Longrightarrow> \<exists>k. (k, v) \<in> set d"
proof (induction ks arbitrary: vs)
  case Nil then show ?case by simp
next
  case (Cons k ks)
  from Cons.prems(1) obtain w ws where w: "map_of d k = Some w" and ws: "lookup_each (map_of d) ks = Inr ws"
    and vs: "vs = w # ws"
    by (auto simp: dict_getitem_def split: sum.splits option.splits)
  show ?case
  proof (cases "v = w")
    case True then show ?thesis using w map_of_SomeD by fast
  next
    case False then show ?thesis using Cons.IH[OF ws] Cons.prems(2) vs by simp
  qed
qed
lemma size_mem: "c \<in> set cs \<Longrightarrow> size c < Suc (size_list size cs)"
  by (induction cs) auto
lemma size_dict_val: "(k, v) \<in> set d \<Longrightarrow> size v < Suc (size_list (size_prod (\<lambda>x. 0) size) d)"
  by (induction d) auto
lemma yield_value_size:
  assumes a: "yield_value_from_iterable v = Inr cs" "c \<in> set cs" and c: "composite c"
  shows "composite v \<and> size c < size v"
proof (cases v)
  case (VDict kd d)
  from a VDict obtain ks where "lookup_each (map_of d) ks = Inr cs" by (auto split: sum.splits)
  with a obtain k where "(k, c) \<in> set d" using lookup_each_set by blast
  then show ?thesis using VDict size_dict_val[of k c d] by simp
next
  case (VList xs)
  with a show ?thesis using size_mem[of c xs] by simp
next
  case (VTuple xs)
  with a show ?thesis using size_mem[of c xs] by simp
next
  case (VNamedTuple n fs xs)
  with a show ?thesis using size_mem[of c xs] by simp
next
  case (VStr s) with a c show ?thesis by auto
next
  case (VNdarray s) with a c show ?thesis by auto
qed (use a in simp_all)

fun elem_weight :: "val \<Rightarrow> nat" where
  "elem_weight c = (if composite c then 2 * size c + 2 else 0)"

fun loop_weight :: "val list \<Rightarrow> nat" where
  "loop_weight [] = 0"
| "loop_weight (c # cs) = max (elem_weight c) (loop_weight cs)"

lemma loop_weight_bound:
  "(\<And>c. c \<in> set cs \<Longrightarrow> composite c \<Longrightarrow> size c < n) \<Longrightarrow> loop_weight cs < 2 * n + 1"
proof (induction cs)
  case Nil show ?case by simp
next
  case (Cons a cs)
  have ih: "loop_weight cs < 2 * n + 1" using Cons.IH Cons.prems by simp
  have "elem_weight a < 2 * n + 1"
  proof (cases "composite a")
    case True
    then have "size a < n" using Cons.prems[of a] by simp
    with True show ?thesis by simp
  next
    case False then show ?thesis by simp
  qed
  with ih show ?case by simp
qed

lemma loop_weight_children:
  assumes "yield_value_from_iterable v = Inr cs"
  shows "loop_weight cs < Suc (2 * size v)"
proof -
  have "\<And>c. c \<in> set cs \<Longrightarrow> composite c \<Longrightarrow> size c < size v"
    using yield_value_size[OF assms] by simp
  then have "loop_weight cs < 2 * size v + 1" by (rule loop_weight_bound)
  then show ?thesis by simp
qed

subsection \<open>\<open>_yield_flat_nest_from_iterable\<close> and \<open>flatten_iterable\<close>\<close>

text \<open>
  \<^verbatim>\<open>
  def _yield_flat_nest_from_iterable(iterable):
    for n in _yield_value_from_iterable(iterable):
      if is_iterable(n):
        for ni in _yield_flat_nest_from_iterable(n):
          yield ni
      else:
        yield n

  def flatten_iterable(structure):
    if is_iterable(structure):
      return list(_yield_flat_nest_from_iterable(structure))
    else:
      return [structure]
  \<close>
  The generator is consumed whole by \<open>list\<close>, so it is given by the list of what it
  yields, or by the first exception. \<open>flat_nest_loop\<close> is the \<open>for\<close> loop over the
  yielded values.
\<close>

function yield_flat_nest_from_iterable :: "val \<Rightarrow> error + val list"
  and flat_nest_loop :: "val list \<Rightarrow> error + val list" where
  "yield_flat_nest_from_iterable iterable =
     (case yield_value_from_iterable iterable of
        Inl e \<Rightarrow> Inl e
      | Inr ns \<Rightarrow> flat_nest_loop ns)"
| "flat_nest_loop [] = Inr []"
| "flat_nest_loop (n # ns) =
     (case is_iterable n of
        Inl e \<Rightarrow> Inl e
      | Inr b \<Rightarrow>
          (case (if b then yield_flat_nest_from_iterable n else Inr [n]) of
             Inl e \<Rightarrow> Inl e
           | Inr nis \<Rightarrow>
               (case flat_nest_loop ns of Inl e \<Rightarrow> Inl e | Inr rest \<Rightarrow> Inr (nis @ rest))))"
  by pat_completeness auto
termination
proof (relation "(\<lambda>x. case x of Inl s \<Rightarrow> 2 * size s + 1 | Inr cs \<Rightarrow> loop_weight cs)
                 <*mlex*> measure (\<lambda>x. case x of Inl s \<Rightarrow> 0 | Inr cs \<Rightarrow> length cs)", goal_cases)
  case 1 show ?case by (simp add: wf_mlex)
next
  case (2 iterable ns)
  then show ?case by (intro mlex_less) (simp add: loop_weight_children)
next
  case (3 n ns b)
  then have "composite n" by (simp add: is_iterable_composite)
  then show ?case by (intro mlex_less) simp
next
  case (4 n ns b nis)
  then show ?case by (intro mlex_leq) simp_all
qed

definition flatten_iterable :: "val \<Rightarrow> error + val list" where
  "flatten_iterable structure =
     (case is_iterable structure of
        Inl e \<Rightarrow> Inl e
      | Inr b \<Rightarrow> if b then yield_flat_nest_from_iterable structure else Inr [structure])"

subsection \<open>\<open>_packed_iterable_nest_with_indices\<close> and \<open>pack_iterable_as\<close>\<close>

text \<open>
  \<^verbatim>\<open>
  def _packed_iterable_nest_with_indices(structure, flat, index):
    packed = []
    for s in _yield_value_from_iterable(structure):
      if is_iterable(s):
        new_index, child = _packed_iterable_nest_with_indices(s, flat, index)
        packed.append(_iterable_like(s, child))
        index = new_index
      else:
        packed.append(flat[index])
        index += 1
    return index, packed

  def pack_iterable_as(structure, flat_iterable):
    if not is_iterable(flat_iterable):
      raise TypeError("flat_iterable must be an iterable")
    if not is_iterable(structure):
      if len(flat_iterable) != 1:
        raise ValueError("Structure is a scalar but len(flat_iterable) == %d > 1"
                         % len(flat_iterable))
      return flat_iterable[0]
    flat_structure = flatten_iterable(structure)
    if len(flat_structure) != len(flat_iterable):
      raise ValueError(
          "Could not pack iterable. Structure had %d elements, but flat_iterable "
          "had %d elements.  Structure: %s, flat_iterable: %s."
          % (len(flat_structure), len(flat_iterable), structure, flat_iterable))
    _, packed = _packed_iterable_nest_with_indices(structure, flat_iterable, 0)
    return _iterable_like(structure, packed)
  \<close>
  \<open>packed_loop\<close> is the \<open>for\<close> loop, with the loop state \<open>index\<close> and \<open>packed\<close> as
  arguments. The index starts at \<open>0\<close> and is only incremented, so it is a \<open>nat\<close>.
\<close>

function packed_iterable_nest_with_indices :: "val \<Rightarrow> val \<Rightarrow> nat \<Rightarrow> error + (nat \<times> val list)"
  and packed_loop :: "val list \<Rightarrow> val \<Rightarrow> nat \<Rightarrow> val list \<Rightarrow> error + (nat \<times> val list)" where
  "packed_iterable_nest_with_indices structure flat index =
     (case yield_value_from_iterable structure of
        Inl e \<Rightarrow> Inl e
      | Inr ss \<Rightarrow> packed_loop ss flat index [])"
| "packed_loop [] flat index packed = Inr (index, packed)"
| "packed_loop (s # ss) flat index packed =
     (case is_iterable s of
        Inl e \<Rightarrow> Inl e
      | Inr b \<Rightarrow>
          if b then
            (case packed_iterable_nest_with_indices s flat index of
               Inl e \<Rightarrow> Inl e
             | Inr (new_index, child) \<Rightarrow>
                 (case iterable_like s child of
                    Inl e \<Rightarrow> Inl e
                  | Inr c \<Rightarrow> packed_loop ss flat new_index (packed @ [c])))
          else
            (case py_getitem flat index of
               Inl e \<Rightarrow> Inl e
             | Inr x \<Rightarrow> packed_loop ss flat (index + 1) (packed @ [x])))"
  by pat_completeness auto
termination
proof (relation "(\<lambda>x. case x of Inl (s, f, i) \<Rightarrow> 2 * size s + 1 | Inr (cs, f, i, p) \<Rightarrow> loop_weight cs)
                 <*mlex*> measure (\<lambda>x. case x of Inl (s, f, i) \<Rightarrow> 0 | Inr (cs, f, i, p) \<Rightarrow> length cs)", goal_cases)
  case 1 show ?case by (simp add: wf_mlex)
next
  case (2 st flat index ss)
  then show ?case by (intro mlex_less) (simp add: loop_weight_children)
next
  case (3 s ss flat index packed b)
  then have "composite s" by (simp add: is_iterable_composite)
  then show ?case by (intro mlex_less) simp
next
  case 4
  then show ?case by (intro mlex_leq) simp_all
next
  case 5
  then show ?case by (intro mlex_leq) simp_all
qed

definition pack_iterable_as :: "val \<Rightarrow> val \<Rightarrow> error + val" where
  "pack_iterable_as structure flat_iterable =
     (case is_iterable flat_iterable of
        Inl e \<Rightarrow> Inl e
      | Inr fit \<Rightarrow>
          if \<not> fit then Inl (TypeError ''flat_iterable must be an iterable'')
          else
            (case is_iterable structure of
               Inl e \<Rightarrow> Inl e
             | Inr sit \<Rightarrow>
                 if \<not> sit then
                   (case py_len flat_iterable of
                      Inl e \<Rightarrow> Inl e
                    | Inr n \<Rightarrow>
                        if n \<noteq> 1 then
                          Inl (ValueError ''Structure is a scalar but len(flat_iterable) == %d > 1''
                                 [ArgD n])
                        else py_getitem flat_iterable 0)
                 else
                   (case flatten_iterable structure of
                      Inl e \<Rightarrow> Inl e
                    | Inr flat_structure \<Rightarrow>
                        (case py_len flat_iterable of
                           Inl e \<Rightarrow> Inl e
                         | Inr n \<Rightarrow>
                             if length flat_structure \<noteq> n then
                               Inl (ValueError
                                      ''Could not pack iterable. Structure had %d elements, but flat_iterable had %d elements.  Structure: %s, flat_iterable: %s.''
                                      [ArgD (length flat_structure), ArgD n,
                                       ArgS structure, ArgS flat_iterable])
                             else
                               (case packed_iterable_nest_with_indices structure flat_iterable 0 of
                                  Inl e \<Rightarrow> Inl e
                                | Inr (ix, packed) \<Rightarrow> iterable_like structure packed)))))"

section \<open>Notions used to state the properties\<close>

text \<open>
  A value supports iteration when \<open>iter\<close> returns an iterator for it.
\<close>

definition supports_iteration :: "val \<Rightarrow> bool" where
  "supports_iteration v = (case py_iter v of Inr it \<Rightarrow> True | Inl e \<Rightarrow> False)"

definition supports_iteration_object :: "pyobject \<Rightarrow> bool" where
  "supports_iteration_object x = (case object_iter x of Inr it \<Rightarrow> True | Inl e \<Rightarrow> False)"

text \<open>A file object that has been closed: \<open>iter\<close> on it raises \<open>ValueError\<close>.\<close>

definition closed_file :: pyobject where
  "closed_file = Instance (Raises (ValueError ''I/O operation on closed file.'' []))"

text \<open>
  Ascending order of keys. Within one kind it is the order of Python's \<open><\<close> (integers
  by value, strings lexicographically by character). Where \<open><\<close> orders nothing, some
  order is fixed: integers are placed before strings and both before the NaNs, which
  stand in the order of their identities. The properties below use the order only on
  keys that \<open><\<close> orders.
\<close>

instantiation key :: linorder
begin

fun less_eq_key :: "key \<Rightarrow> key \<Rightarrow> bool" where
  "less_eq_key (KInt a) (KInt b) = (a \<le> b)"
| "less_eq_key (KStr a) (KStr b) = (a \<le> b)"
| "less_eq_key (KNaN a) (KNaN b) = (a \<le> b)"
| "less_eq_key (KInt a) (KStr b) = True"
| "less_eq_key (KInt a) (KNaN b) = True"
| "less_eq_key (KStr a) (KNaN b) = True"
| "less_eq_key (KStr a) (KInt b) = False"
| "less_eq_key (KNaN a) (KInt b) = False"
| "less_eq_key (KNaN a) (KStr b) = False"

definition less_key :: "key \<Rightarrow> key \<Rightarrow> bool" where
  "less_key x y = (x \<le> y \<and> \<not> y \<le> x)"

instance
proof
  fix x y z :: key
  show "(x < y) = (x \<le> y \<and> \<not> y \<le> x)" by (simp add: less_key_def)
  show "x \<le> x" by (cases x) simp_all
  show "x \<le> y \<Longrightarrow> y \<le> z \<Longrightarrow> x \<le> z"
    by (cases x; cases y; cases z) simp_all
  show "x \<le> y \<Longrightarrow> y \<le> x \<Longrightarrow> x = y"
    by (cases x; cases y) simp_all
  show "x \<le> y \<or> y \<le> x"
    by (cases x; cases y) auto
qed

end

text \<open>
  Two keys are comparable when \<open><\<close> orders them: they are the same key, or \<open><\<close> returns
  \<open>True\<close> for them one way round. The keys of a dictionary are pairwise comparable when
  every two of them are; then \<open><\<close> is a total order on them.
\<close>

definition comparable :: "key \<Rightarrow> key \<Rightarrow> bool" where
  "comparable a b = (a = b \<or> key_lt a b = Inr True \<or> key_lt b a = Inr True)"

definition pairwise_comparable :: "key list \<Rightarrow> bool" where
  "pairwise_comparable ks = (\<forall>a \<in> set ks. \<forall>b \<in> set ks. comparable a b)"

text \<open>
  The weaker notion: \<open><\<close> is defined on two keys when it returns for them, whatever it
  returns. It is defined on a NaN and an integer, which it does not order.
\<close>

definition lt_defined :: "key \<Rightarrow> key \<Rightarrow> bool" where
  "lt_defined a b = (case key_lt a b of Inr r \<Rightarrow> True | Inl e \<Rightarrow> False)"

definition pairwise_lt_defined :: "key list \<Rightarrow> bool" where
  "pairwise_lt_defined ks = (\<forall>a \<in> set ks. \<forall>b \<in> set ks. lt_defined a b)"

text \<open>
  The invariants of the representation: a Python dictionary has no repeated key and a
  namedtuple has one value per field.
\<close>

fun wellformed :: "val \<Rightarrow> bool" where
  "wellformed (VList xs) = (\<forall>x \<in> set xs. wellformed x)"
| "wellformed (VTuple xs) = (\<forall>x \<in> set xs. wellformed x)"
| "wellformed (VNamedTuple n fs xs) = (length fs = length xs \<and> (\<forall>x \<in> set xs. wellformed x))"
| "wellformed (VDict kd d) = (distinct (map fst d) \<and> (\<forall>p \<in> set d. wellformed (snd p)))"
| "wellformed v = True"

text \<open>
  A structure is sortable when every dictionary in it, at any depth of list, tuple,
  namedtuple and dictionary nesting, has pairwise comparable keys.
\<close>

fun sortable :: "val \<Rightarrow> bool" where
  "sortable (VList xs) = (\<forall>x \<in> set xs. sortable x)"
| "sortable (VTuple xs) = (\<forall>x \<in> set xs. sortable x)"
| "sortable (VNamedTuple n fs xs) = (\<forall>x \<in> set xs. sortable x)"
| "sortable (VDict kd d) = (pairwise_comparable (map fst d) \<and> (\<forall>p \<in> set d. sortable (snd p)))"
| "sortable v = True"


text \<open>
  The traversal order of the specification: the children of a sequence or record in
  positional order, the values of a mapping in ascending order of their keys; the leaves
  of a structure depth-first, left to right in that order.
\<close>

fun ordered_children :: "val \<Rightarrow> val list" where
  "ordered_children (VList xs) = xs"
| "ordered_children (VTuple xs) = xs"
| "ordered_children (VNamedTuple n fs xs) = xs"
| "ordered_children (VDict kd d) = map snd (sort_key fst d)"
| "ordered_children v = []"

fun dfs_leaves :: "val \<Rightarrow> val list" where
  "dfs_leaves (VList xs) = concat (map dfs_leaves xs)"
| "dfs_leaves (VTuple xs) = concat (map dfs_leaves xs)"
| "dfs_leaves (VNamedTuple n fs xs) = concat (map dfs_leaves xs)"
| "dfs_leaves (VDict kd d) = concat (map (\<lambda>p. dfs_leaves (snd p)) (sort_key fst d))"
| "dfs_leaves v = [v]"


text \<open>
  Examples: \<open>["a", {"y": 2, "x": 1}, ("b", "c")]\<close>, \<open>{1: "x", "y": "z"}\<close>,
  \<open>{float("nan"): "x", 1: "z"}\<close>, \<open>OrderedDict([("b", 2), ("a", 1)])\<close> and
  \<open>{"a": 0, "b": 0}\<close>.
\<close>

definition example_nest :: val where
  "example_nest =
     VList [VStr ''a'',
            VDict PlainDict [(KStr ''y'', VInt 2), (KStr ''x'', VInt 1)],
            VTuple [VStr ''b'', VStr ''c'']]"



definition ordered_ba :: "(key \<times> val) list" where
  "ordered_ba = [(KStr ''b'', VInt 2), (KStr ''a'', VInt 1)]"

definition plain_ab :: "(key \<times> val) list" where
  "plain_ab = [(KStr ''a'', VInt 0), (KStr ''b'', VInt 0)]"

section \<open>Properties\<close>

subsection \<open>Auxiliary facts\<close>

lemma comparable_sym: "comparable a b \<Longrightarrow> comparable b a"
  by (auto simp: comparable_def)

lemma key_lt_comparable: "comparable a b \<Longrightarrow> key_lt a b = Inr (a < b)"
  by (cases a; cases b) (auto simp: comparable_def less_key_def)

lemma comparable_lt_defined: "comparable a b \<Longrightarrow> lt_defined a b"
  by (simp add: key_lt_comparable lt_defined_def)







lemma py_insert_insort:
  "(\<And>y. y \<in> set ys \<Longrightarrow> comparable x y) \<Longrightarrow> py_insert x ys = Inr (insort x ys)"
proof (induction ys)
  case Nil show ?case by simp
next
  case (Cons y ys)
  have "comparable y x" using Cons.prems[of y] by (simp add: comparable_sym)
  then have k: "key_lt y x = Inr (y < x)" by (rule key_lt_comparable)
  have "py_insert x ys = Inr (insort x ys)" using Cons.IH Cons.prems by simp
  with k show ?case by (auto simp: not_le)
qed

lemma py_sorted_sort:
  assumes "pairwise_comparable ks"
  shows "py_sorted ks = Inr (sort ks)"
  using assms
proof (induction ks)
  case Nil show ?case by simp
next
  case (Cons k ks)
  then have "py_sorted ks = Inr (sort ks)" by (simp add: pairwise_comparable_def)
  moreover have "py_insert k (sort ks) = Inr (insort k (sort ks))"
    using Cons.prems by (intro py_insert_insort) (simp add: pairwise_comparable_def)
  ultimately show ?case by simp
qed








lemma sorted_keys_sort:
  "distinct (map fst d) \<Longrightarrow> pairwise_comparable (map fst d) \<Longrightarrow> sorted_keys d = Inr (sort (map fst d))"
  by (simp add: sorted_keys_Inr py_sorted_sort)



lemma pairwise_comparable_lt_defined: "pairwise_comparable ks \<Longrightarrow> pairwise_lt_defined ks"
  by (simp add: pairwise_comparable_def pairwise_lt_defined_def comparable_lt_defined)

lemma dfs_leaves_children:
  "composite v \<Longrightarrow> dfs_leaves v = concat (map dfs_leaves (ordered_children v))"
  by (cases v) (simp_all add: comp_def)

lemma dfs_leaves_leaf: "\<not> composite v \<Longrightarrow> dfs_leaves v = [v]"
  by (cases v) simp_all

lemma sortable_leaf: "\<not> composite v \<Longrightarrow> sortable v"
  by (cases v) simp_all

declare yield_flat_nest_from_iterable.simps [simp del]

declare packed_iterable_nest_with_indices.simps [simp del]

lemma map_insort_key: "map f (insort_key f x xs) = insort (f x) (map f xs)"
  by (induction xs) simp_all

lemma map_sort_key: "map f (sort_key f xs) = sort (map f xs)"
  by (induction xs) (simp_all add: map_insort_key)

lemma lookup_each_items:
  "distinct (map fst d) \<Longrightarrow> set items \<subseteq> set d \<Longrightarrow>
   lookup_each (map_of d) (map fst items) = Inr (map snd items)"
  by (induction items) (auto simp: dict_getitem_def)

lemma yield_value_dict:
  assumes "distinct (map fst d)" "pairwise_comparable (map fst d)"
  shows "yield_value_from_iterable (VDict kd d) = Inr (map snd (sort_key fst d))"
proof -
  have "lookup_each (map_of d) (map fst (sort_key fst d)) = Inr (map snd (sort_key fst d))"
    using assms(1) by (intro lookup_each_items) simp_all
  then show ?thesis using assms by (simp add: sorted_keys_sort map_sort_key)
qed

lemma yield_value_children:
  "composite v \<Longrightarrow> wellformed v \<Longrightarrow> sortable v \<Longrightarrow>
   yield_value_from_iterable v = Inr (ordered_children v)"
  by (cases v) (simp_all add: yield_value_dict del: yield_value_from_iterable.simps(1))





lemma flat_nest_loop_Cons:
  "flat_nest_loop (n # ns) =
     (case (if composite n then yield_flat_nest_from_iterable n else Inr [n]) of
        Inl e \<Rightarrow> Inl e
      | Inr nis \<Rightarrow> (case flat_nest_loop ns of Inl e \<Rightarrow> Inl e | Inr rest \<Rightarrow> Inr (nis @ rest)))"
  by (simp add: is_iterable_composite)

lemma children_wellformed:
  "wellformed v \<Longrightarrow> c \<in> set (ordered_children v) \<Longrightarrow> wellformed c"
  by (cases v) auto

lemma sortable_children:
  "composite v \<Longrightarrow> sortable v \<longleftrightarrow>
     (case v of VDict kd d \<Rightarrow> pairwise_comparable (map fst d) | _ \<Rightarrow> True) \<and>
     (\<forall>c \<in> set (ordered_children v). sortable c)"
  by (cases v) auto



lemma flatten_nest_characterisation:
  "(composite v \<longrightarrow> wellformed v \<longrightarrow> sortable v \<longrightarrow>
      yield_flat_nest_from_iterable v = Inr (dfs_leaves v))"
  "((\<forall>c \<in> set cs. wellformed c \<and> sortable c) \<longrightarrow>
      flat_nest_loop cs = Inr (concat (map dfs_leaves cs)))"
proof (induction v and cs rule: yield_flat_nest_from_iterable_flat_nest_loop.induct)
  case (1 iterable)
  show ?case
  proof (intro impI)
    assume c: "composite iterable" and w: "wellformed iterable" and s: "sortable iterable"
    have y: "yield_value_from_iterable iterable = Inr (ordered_children iterable)"
      using c w s by (rule yield_value_children)
    have wc: "\<forall>c \<in> set (ordered_children iterable). wellformed c \<and> sortable c"
      using w s c children_wellformed sortable_children by blast
    have "flat_nest_loop (ordered_children iterable) =
        Inr (concat (map dfs_leaves (ordered_children iterable)))"
      using "1.IH"[OF y] wc by simp
    then show "yield_flat_nest_from_iterable iterable = Inr (dfs_leaves iterable)"
      using y c by (simp add: yield_flat_nest_from_iterable.simps dfs_leaves_children)
  qed
next
  case 2
  show ?case by simp
next
  case (3 n ns)
  show ?case
  proof (intro impI)
    assume w: "\<forall>c \<in> set (n # ns). wellformed c \<and> sortable c"
    then have wn: "wellformed n" "sortable n" and wns: "\<forall>c \<in> set ns. wellformed c \<and> sortable c"
      by simp_all
    have i: "is_iterable n = Inr (composite n)" by (rule is_iterable_composite)
    show "flat_nest_loop (n # ns) = Inr (concat (map dfs_leaves (n # ns)))"
    proof (cases "composite n")
      case True
      have h: "yield_flat_nest_from_iterable n = Inr (dfs_leaves n)"
        using "3.IH"(1)[OF i True] True wn by simp
      with True have "(if composite n then yield_flat_nest_from_iterable n else Inr [n]) = Inr (dfs_leaves n)"
        by simp
      from "3.IH"(2)[OF i this] wns h True show ?thesis
        by (simp add: flat_nest_loop_Cons del: flat_nest_loop.simps)
    next
      case False
      then have "(if composite n then yield_flat_nest_from_iterable n else Inr [n]) = Inr [n]" by simp
      from "3.IH"(2)[OF i this] wns False show ?thesis
        by (simp add: flat_nest_loop_Cons dfs_leaves_leaf del: flat_nest_loop.simps)
    qed
  qed
qed

lemma flatten_iterable_characterisation:
  "wellformed v \<Longrightarrow> sortable v \<Longrightarrow> flatten_iterable v = Inr (dfs_leaves v)"
  using flatten_nest_characterisation(1)[of v]
  by (cases "composite v") (simp_all add: flatten_iterable_def is_iterable_composite dfs_leaves_leaf)



lemma dict_of_zip:
  assumes "distinct ks"
  shows "Map.empty(ks [\<mapsto>] args) = map_of (zip ks args)"
proof -
  have d: "distinct (map fst (zip ks args))"
    using assms by (simp add: map_fst_zip_take)
  then have "distinct (map fst (rev (zip ks args)))" by (simp add: rev_map [symmetric])
  then have "map_of (rev (zip ks args)) = map_of (zip ks args)"
    using d by (simp add: map_of_inject_set)
  then show ?thesis by (simp add: map_upds_def)
qed

lemma build_items_total:
  "set ks \<subseteq> dom m \<Longrightarrow> build_items m ks = Inr (map (\<lambda>k. (k, the (m k))) ks)"
  by (induction ks) (auto simp: dict_getitem_def)

lemma build_items_missing:
  "\<not> set ks \<subseteq> dom m \<Longrightarrow> \<exists>k. build_items m ks = Inl (KeyError k)"
proof (induction ks)
  case Nil then show ?case by simp
next
  case (Cons k ks)
  show ?case
  proof (cases "m k")
    case None then show ?thesis by (simp add: dict_getitem_def)
  next
    case (Some v)
    with Cons.prems have "\<not> set ks \<subseteq> dom m" by auto
    then obtain k' where "build_items m ks = Inl (KeyError k')" using Cons.IH by auto
    with Some show ?thesis by (simp add: dict_getitem_def)
  qed
qed

lemma items_of_map_of:
  "distinct (map fst d) \<Longrightarrow> map (\<lambda>k. (k, the (map_of d k))) (map fst d) = d"
  by (induction d) (auto simp: rev_image_eqI intro!: map_idI)

lemma iterable_like_dict:
  assumes "distinct (map fst d)" "pairwise_comparable (map fst d)" "length args = length d"
  shows "iterable_like (VDict kd d) args =
           Inr (VDict kd (map (\<lambda>k. (k, the (map_of (zip (sort (map fst d)) args) k))) (map fst d)))"
proof -
  let ?ks = "sort (map fst d)"
  have r: "Map.empty(?ks [\<mapsto>] args) = map_of (zip ?ks args)"
    using assms(1) by (intro dict_of_zip) simp
  have "dom (map_of (zip ?ks args)) = set ?ks" using assms(3) by (intro dom_map_of_zip) simp
  then have "set (map fst d) \<subseteq> dom (map_of (zip ?ks args))" by simp
  then have "build_items (map_of (zip ?ks args)) (map fst d) =
      Inr (map (\<lambda>k. (k, the (map_of (zip ?ks args) k))) (map fst d))"
    by (rule build_items_total)
  then show ?thesis using assms(1,2) r by (simp add: sorted_keys_sort)
qed

lemma sorted_items_map_of:
  assumes "distinct (map fst d)"
  shows "map_of (sort_key fst d) = map_of d"
proof -
  have "distinct (map fst (sort_key fst d))" using assms by (simp add: map_sort_key)
  then show ?thesis using assms by (simp add: map_of_inject_set)
qed

lemma iterable_like_children:
  assumes "composite v" "wellformed v" "sortable v"
  shows "iterable_like v (ordered_children v) = Inr v"
proof (cases v)
  case (VDict kd d)
  with assms have d: "distinct (map fst d)" and pc: "pairwise_comparable (map fst d)" by simp_all
  have z: "zip (sort (map fst d)) (map snd (sort_key fst d)) = sort_key fst d"
    by (simp add: map_sort_key [symmetric] zip_map_fst_snd)
  have "iterable_like (VDict kd d) (map snd (sort_key fst d)) =
      Inr (VDict kd (map (\<lambda>k. (k, the (map_of d k))) (map fst d)))"
    using iterable_like_dict[OF d pc, of "map snd (sort_key fst d)" kd]
    by (simp add: z sorted_items_map_of[OF d])
  then show ?thesis using VDict items_of_map_of[OF d] by (simp del: iterable_like.simps)
qed (use assms in simp_all)

lemma slice_append:
  assumes "take (length (a @ b)) (drop i fl) = a @ b"
  shows "take (length a) (drop i fl) = a" "take (length b) (drop (i + length a) fl) = b"
proof -
  have "take (length a) (drop i fl) @ take (length b) (drop (length a) (drop i fl)) = a @ b"
    using assms by (simp add: take_add)
  moreover have "length (take (length a) (drop i fl)) = length a"
  proof -
    have "length (take (length (a @ b)) (drop i fl)) = length (a @ b)"
      using assms by simp
    then have "length (a @ b) \<le> length (drop i fl)"
      by (simp only: length_take min_def split: if_splits)
    then show ?thesis by simp
  qed
  ultimately have "take (length a) (drop i fl) = a \<and> take (length b) (drop (length a) (drop i fl)) = b"
    by (simp add: append_eq_append_conv)
  then show "take (length a) (drop i fl) = a" "take (length b) (drop (i + length a) fl) = b"
    by (simp_all add: add.commute)
qed

lemma slice_head:
  assumes "take (length (x # b)) (drop i fl) = x # b"
  shows "seq_getitem fl i = Inr x" "take (length b) (drop (Suc i) fl) = b"
proof -
  have s: "take (length ([x] @ b)) (drop i fl) = [x] @ b" using assms by simp
  have h: "take (length [x]) (drop i fl) = [x]" using slice_append(1)[OF s] .
  then have "drop i fl \<noteq> []" by auto
  then have i: "i < length fl" by simp
  with h have "fl ! i = x" by (simp add: take_Suc_conv_app_nth hd_drop_conv_nth take_Suc)
  with i show "seq_getitem fl i = Inr x" by (simp add: seq_getitem_def)
  show "take (length b) (drop (Suc i) fl) = b" using slice_append(2)[OF s] by simp
qed

lemma packed_loop_Cons:
  "packed_loop (s # ss) flat index packed =
     (if composite s then
        (case packed_iterable_nest_with_indices s flat index of
           Inl e \<Rightarrow> Inl e
         | Inr (new_index, child) \<Rightarrow>
             (case iterable_like s child of
                Inl e \<Rightarrow> Inl e
              | Inr c \<Rightarrow> packed_loop ss flat new_index (packed @ [c])))
      else
        (case py_getitem flat index of
           Inl e \<Rightarrow> Inl e
         | Inr x \<Rightarrow> packed_loop ss flat (index + 1) (packed @ [x])))"
  by (simp add: is_iterable_composite)

lemma pack_nest_roundtrip:
  "(\<forall>fl. flat = VList fl \<longrightarrow> composite st \<longrightarrow> wellformed st \<longrightarrow> sortable st \<longrightarrow>
      take (length (dfs_leaves st)) (drop index fl) = dfs_leaves st \<longrightarrow>
      packed_iterable_nest_with_indices st flat index =
        Inr (index + length (dfs_leaves st), ordered_children st))"
  "(\<forall>fl. flat = VList fl \<longrightarrow> (\<forall>c \<in> set ss. wellformed c \<and> sortable c) \<longrightarrow>
      take (length (concat (map dfs_leaves ss))) (drop index fl) = concat (map dfs_leaves ss) \<longrightarrow>
      packed_loop ss flat index packed =
        Inr (index + length (concat (map dfs_leaves ss)), packed @ ss))"
proof (induction st flat index and ss flat index packed
       rule: packed_iterable_nest_with_indices_packed_loop.induct)
  case (1 st flat index)
  show ?case
  proof (intro allI impI)
    fix fl
    assume f: "flat = VList fl" and c: "composite st" and w: "wellformed st" and s: "sortable st"
      and t: "take (length (dfs_leaves st)) (drop index fl) = dfs_leaves st"
    have y: "yield_value_from_iterable st = Inr (ordered_children st)"
      using c w s by (rule yield_value_children)
    have cs: "\<forall>c \<in> set (ordered_children st). wellformed c \<and> sortable c"
      using w s c children_wellformed sortable_children by blast
    have l: "dfs_leaves st = concat (map dfs_leaves (ordered_children st))"
      using c by (rule dfs_leaves_children)
    have "packed_loop (ordered_children st) flat index [] =
        Inr (index + length (concat (map dfs_leaves (ordered_children st))), [] @ ordered_children st)"
      using "1.IH"[OF y] f cs t l by simp
    then show "packed_iterable_nest_with_indices st flat index =
        Inr (index + length (dfs_leaves st), ordered_children st)"
      using y l by (simp add: packed_iterable_nest_with_indices.simps)
  qed
next
  case (2 flat index packed)
  show ?case by simp
next
  case (3 s ss flat index packed)
  show ?case
  proof (intro allI impI)
    fix fl
    assume f: "flat = VList fl" and w: "\<forall>c \<in> set (s # ss). wellformed c \<and> sortable c"
      and t: "take (length (concat (map dfs_leaves (s # ss)))) (drop index fl) =
              concat (map dfs_leaves (s # ss))"
    have i: "is_iterable s = Inr (composite s)" by (rule is_iterable_composite)
    have ws: "wellformed s" "sortable s" and wss: "\<forall>c \<in> set ss. wellformed c \<and> sortable c"
      using w by simp_all
    let ?L = "concat (map dfs_leaves ss)"
    have t': "take (length (dfs_leaves s @ ?L)) (drop index fl) = dfs_leaves s @ ?L"
      using t by simp
    show "packed_loop (s # ss) flat index packed =
        Inr (index + length (concat (map dfs_leaves (s # ss))), packed @ s # ss)"
    proof (cases "composite s")
      case True
      have n: "packed_iterable_nest_with_indices s flat index =
          Inr (index + length (dfs_leaves s), ordered_children s)"
        using "3.IH"(1)[OF i True] f True ws slice_append(1)[OF t'] by simp
      have il: "iterable_like s (ordered_children s) = Inr s"
        using True ws by (rule iterable_like_children)
      have "packed_loop ss flat (index + length (dfs_leaves s)) (packed @ [s]) =
          Inr (index + length (dfs_leaves s) + length ?L, (packed @ [s]) @ ss)"
        using "3.IH"(2)[OF i True n refl il] f wss slice_append(2)[OF t'] by simp
      then show ?thesis using True n il
        by (simp add: packed_loop_Cons add.assoc del: packed_loop.simps)
    next
      case False
      then have l: "dfs_leaves s = [s]" by (rule dfs_leaves_leaf)
      have t'': "take (length (s # ?L)) (drop index fl) = s # ?L" using t' l by simp
      have g: "py_getitem flat index = Inr s" using f slice_head(1)[OF t''] by simp
      have "packed_loop ss flat (index + 1) (packed @ [s]) =
          Inr (index + 1 + length ?L, (packed @ [s]) @ ss)"
        using "3.IH"(3)[OF i False g] f wss slice_head(2)[OF t''] by simp
      then show ?thesis using False g l
        by (simp add: packed_loop_Cons del: packed_loop.simps)
    qed
  qed
qed

lemma pack_flatten_roundtrip:
  assumes "wellformed S" "sortable S"
  shows "flatten_iterable S = Inr (dfs_leaves S) \<and>
         pack_iterable_as S (VList (dfs_leaves S)) = Inr S"
proof -
  have f: "flatten_iterable S = Inr (dfs_leaves S)"
    using assms by (simp add: flatten_iterable_characterisation)
  show ?thesis
  proof (cases "composite S")
    case False
    then have "dfs_leaves S = [S]" by (rule dfs_leaves_leaf)
    with False f show ?thesis
      by (simp add: pack_iterable_as_def is_iterable_composite seq_getitem_def)
  next
    case True
    have "packed_iterable_nest_with_indices S (VList (dfs_leaves S)) 0 =
        Inr (0 + length (dfs_leaves S), ordered_children S)"
      using pack_nest_roundtrip(1)[of "VList (dfs_leaves S)" S 0] True assms by simp
    moreover have "iterable_like S (ordered_children S) = Inr S"
      using True assms by (rule iterable_like_children)
    ultimately show ?thesis using True f
      by (simp add: pack_iterable_as_def is_iterable_composite)
  qed
qed

lemma pc_example: "pairwise_comparable [KStr ''y'', KStr ''x'']"
  by (simp add: pairwise_comparable_def comparable_def)

lemma sort_key_set_unique:
  assumes "distinct (map fst d)" "distinct (map fst d')" "set d = set d'"
  shows "sort_key fst d = sort_key fst d'"
proof (rule map_sorted_distinct_set_unique)
  show "inj_on fst (set (sort_key fst d) \<union> set (sort_key fst d'))"
    using assms by (simp add: distinct_map)
  show "sorted (map fst (sort_key fst d))" "sorted (map fst (sort_key fst d'))" by simp_all
  show "distinct (map fst (sort_key fst d))" "distinct (map fst (sort_key fst d'))"
    using assms by (simp_all add: map_sort_key)
  show "set (sort_key fst d) = set (sort_key fst d')" using assms by simp
qed

lemma dfs_leaves_native_order:
  "distinct (map fst d) \<Longrightarrow> distinct (map fst d') \<Longrightarrow> set d = set d' \<Longrightarrow>
   dfs_leaves (VDict kd d) = dfs_leaves (VDict kd' d')"
  by (simp add: sort_key_set_unique[of d d'])

lemma sortable_native_order:
  "set d = set d' \<Longrightarrow> sortable (VDict kd d) = sortable (VDict kd' d')"
  by (simp add: pairwise_comparable_def)

lemma packed_loop_leaves:
  "(\<forall>c \<in> set cs. \<not> composite c) \<Longrightarrow> index + length cs \<le> length fl \<Longrightarrow>
   packed_loop cs (VList fl) index packed =
     Inr (index + length cs, packed @ take (length cs) (drop index fl))"
proof (induction cs arbitrary: index packed)
  case Nil show ?case by simp
next
  case (Cons c cs)
  have i: "index < length fl" using Cons.prems(2) by simp
  then have g: "py_getitem (VList fl) index = Inr (fl ! index)" by (simp add: seq_getitem_def)
  have t: "take (Suc (length cs)) (drop index fl) = fl ! index # take (length cs) (drop (Suc index) fl)"
    using i by (simp add: Cons_nth_drop_Suc [symmetric])
  have "packed_loop cs (VList fl) (index + 1) (packed @ [fl ! index]) =
      Inr (index + 1 + length cs, (packed @ [fl ! index]) @ take (length cs) (drop (index + 1) fl))"
    using Cons.prems by (intro Cons.IH) simp_all
  then show ?case using Cons.prems(1) g t
    by (simp add: packed_loop_Cons del: packed_loop.simps)
qed

lemma concat_leaves_flat:
  "(\<forall>p \<in> set xs. \<not> composite (snd p)) \<Longrightarrow>
   concat (map (\<lambda>p. dfs_leaves (snd p)) xs) = map snd xs"
  by (induction xs) (simp_all add: dfs_leaves_leaf)

lemma dfs_leaves_flat_dict:
  "(\<forall>p \<in> set d. \<not> composite (snd p)) \<Longrightarrow>
   dfs_leaves (VDict kd d) = map snd (sort_key fst d)"
  by (simp add: concat_leaves_flat)

lemma iterable_like_positional:
  assumes d: "distinct (map fst d)" and pc: "pairwise_comparable (map fst d)"
    and l: "length args = length d"
  shows "\<exists>d'. iterable_like (VDict kd d) args = Inr (VDict kd d') \<and> map fst d' = map fst d \<and>
              (\<forall>i < length d. map_of d' (sort (map fst d) ! i) = Some (args ! i))"
proof -
  let ?ks = "sort (map fst d)"
  let ?m = "map_of (zip ?ks args)"
  let ?d' = "map (\<lambda>k. (k, the (?m k))) (map fst d)"
  have il: "iterable_like (VDict kd d) args = Inr (VDict kd ?d')"
    using d pc l by (rule iterable_like_dict)
  have f: "map fst ?d' = map fst d" by (simp add: comp_def)
  have dom: "dom ?m = set (map fst d)"
    using l dom_map_of_zip[of ?ks args] by simp
  have m: "map_of ?d' = ?m" using dom by (intro map_of_map_keys) simp
  have "map_of ?d' (?ks ! i) = Some (args ! i)" if "i < length d" for i
  proof -
    have "?m (?ks ! i) = Some (args ! i)"
      using that l d by (intro map_of_zip_nth) simp_all
    with m show ?thesis by simp
  qed
  with il f show ?thesis by blast
qed

lemma wellformed_leaf: "\<not> composite v \<Longrightarrow> wellformed v"
  by (cases v) simp_all

lemma pack_cross_kind:
  assumes d1: "distinct (map fst d1)" and d2: "distinct (map fst d2)"
    and pc: "pairwise_comparable (map fst d1)"
    and ks: "set (map fst d1) = set (map fst d2)"
    and l1: "\<forall>p \<in> set d1. \<not> composite (snd p)" and l2: "\<forall>p \<in> set d2. \<not> composite (snd p)"
  shows "\<exists>d'. pack_iterable_as (VDict k2 d2) (VList (dfs_leaves (VDict k1 d1))) = Inr (VDict k2 d') \<and>
              map fst d' = map fst d2 \<and> map_of d' = map_of d1"
proof -
  let ?L = "map snd (sort_key fst d1)"
  let ?T = "VDict k2 d2"
  let ?d' = "map (\<lambda>k. (k, the (map_of d1 k))) (map fst d2)"
  have L: "dfs_leaves (VDict k1 d1) = ?L" using l1 by (rule dfs_leaves_flat_dict)
  have pc2: "pairwise_comparable (map fst d2)"
    using pc unfolding pairwise_comparable_def ks .
  have "\<forall>p \<in> set d2. wellformed (snd p)" using l2 wellformed_leaf by blast
  then have w2: "wellformed ?T" using d2 by simp
  have "\<forall>p \<in> set d2. sortable (snd p)" using l2 sortable_leaf by blast
  then have s2: "sortable ?T" using pc2 by simp
  have len: "length d1 = length d2"
    using d1 d2 ks by (metis distinct_card length_map)
  have fT: "flatten_iterable ?T = Inr (map snd (sort_key fst d2))"
    using w2 s2 l2 by (simp add: flatten_iterable_characterisation dfs_leaves_flat_dict
        del: dfs_leaves.simps wellformed.simps sortable.simps)
  have y: "yield_value_from_iterable ?T = Inr (map snd (sort_key fst d2))"
    using d2 pc2 by (rule yield_value_dict)
  have "packed_loop (map snd (sort_key fst d2)) (VList ?L) 0 [] =
      Inr (0 + length (map snd (sort_key fst d2)),
           [] @ take (length (map snd (sort_key fst d2))) (drop 0 ?L))"
    using l2 len by (intro packed_loop_leaves) simp_all
  then have n: "packed_iterable_nest_with_indices ?T (VList ?L) 0 = Inr (length d2, ?L)"
    using y len by (simp add: packed_iterable_nest_with_indices.simps)
  have sk: "sort (map fst d2) = sort (map fst d1)"
    using d1 d2 ks by (intro sorted_distinct_set_unique) simp_all
  have "zip (sort (map fst d1)) ?L = sort_key fst d1"
    by (simp add: map_sort_key [symmetric] zip_map_fst_snd)
  then have z: "zip (sort (map fst d2)) ?L = sort_key fst d1"
    by (simp only: sk)
  have il: "iterable_like ?T ?L = Inr (VDict k2 ?d')"
    using iterable_like_dict[OF d2 pc2, of ?L k2] len
    by (simp add: z sorted_items_map_of[OF d1])
  have p: "pack_iterable_as ?T (VList ?L) = Inr (VDict k2 ?d')"
    using fT n il len by (simp add: pack_iterable_as_def is_iterable_composite)
  have "set (map fst d2) = dom (map_of d1)" using ks by (simp add: dom_map_of_conv_image_fst)
  then have m: "map_of ?d' = map_of d1" by (rule map_of_map_keys)
  have "map fst ?d' = map fst d2" by (simp add: comp_def)
  with p m L show ?thesis by auto
qed

lemma pack_example_nest:
  "pack_iterable_as example_nest (VList [VStr ''p'', VInt 9, VInt 8, VStr ''q'', VStr ''r'']) =
     Inr (VList [VStr ''p'',
                 VDict PlainDict [(KStr ''y'', VInt 8), (KStr ''x'', VInt 9)],
                 VTuple [VStr ''q'', VStr ''r'']])"
  unfolding example_nest_def by code_simp

lemma pack_cross_kind_example:
  "flatten_iterable (VDict OrderedDict ordered_ba) = Inr [VInt 1, VInt 2] \<and>
   pack_iterable_as (VDict PlainDict plain_ab) (VList [VInt 1, VInt 2]) =
     Inr (VDict PlainDict [(KStr ''a'', VInt 1), (KStr ''b'', VInt 2)])"
  unfolding ordered_ba_def plain_ab_def by code_simp

subsection \<open>The classifier\<close>

text \<open>
  Claim C8, as stated: \<open>is_iterable\<close> never raises, for any input value. It raises on a
  closed file: \<open>iter\<close> raises \<open>ValueError\<close> there, and \<open>is_iterable\<close> catches
  \<open>TypeError\<close> only.
\<close>

theorem is_iterable_raises:
  "is_iterable_object closed_file = Inl (ValueError ''I/O operation on closed file.'' [])"
  by (simp add: closed_file_def is_iterable_object_def)

text \<open>
  Claim C8, amended. \<open>is_iterable\<close> returns \<open>False\<close> for every string, numpy array and
  tensor handle and for every object on which \<open>iter\<close> raises \<open>TypeError\<close>, and \<open>True\<close>
  for every other object on which \<open>iter\<close> returns an iterator. When \<open>iter\<close> raises an
  exception that is not a \<open>TypeError\<close>, \<open>is_iterable\<close> raises that exception. On the
  values that nested structures are built from it never raises: it returns whether the
  value is no string, array or tensor and supports iteration.
\<close>

theorem is_iterable_classification:
  "(isinstance_leaf x \<longrightarrow> is_iterable_object x = Inr False) \<and>
   (\<not> isinstance_leaf x \<and> supports_iteration_object x \<longrightarrow> is_iterable_object x = Inr True) \<and>
   (object_iter x = Inl (TypeError m) \<longrightarrow> is_iterable_object x = Inr False) \<and>
   (\<not> isinstance_leaf x \<and> object_iter x = Inl e \<and> (\<forall>m. e \<noteq> TypeError m) \<longrightarrow>
      is_iterable_object x = Inl e) \<and>
   is_iterable_object (Value v) = is_iterable v \<and>
   is_iterable v =
     Inr (\<not> is_string v \<and> \<not> is_ndarray v \<and> \<not> is_tensor v \<and> supports_iteration v)"
proof (intro conjI impI)
  assume "isinstance_leaf x"
  then show "is_iterable_object x = Inr False" by (simp add: is_iterable_object_def)
next
  assume "\<not> isinstance_leaf x \<and> supports_iteration_object x"
  then show "is_iterable_object x = Inr True"
    by (cases "object_iter x") (simp_all add: is_iterable_object_def supports_iteration_object_def)
next
  assume "object_iter x = Inl (TypeError m)"
  then show "is_iterable_object x = Inr False" by (simp add: is_iterable_object_def)
next
  assume a: "\<not> isinstance_leaf x \<and> object_iter x = Inl e \<and> (\<forall>m. e \<noteq> TypeError m)"
  then show "is_iterable_object x = Inl e"
    by (cases e) (simp_all add: is_iterable_object_def)
next
  show "is_iterable_object (Value v) = is_iterable v"
    by (cases v) (simp_all add: is_iterable_object_def is_iterable_def)
next
  show "is_iterable v =
     Inr (\<not> is_string v \<and> \<not> is_ndarray v \<and> \<not> is_tensor v \<and> supports_iteration v)"
    by (cases v) (simp_all add: is_iterable_def supports_iteration_def)
qed

theorem is_iterable_classification_witness:
  "isinstance_leaf (Value (VStr ''ab'')) \<and> is_iterable_object (Value (VStr ''ab'')) = Inr False \<and>
   \<not> isinstance_leaf (Instance Iterator) \<and> supports_iteration_object (Instance Iterator) \<and>
   is_iterable_object (Instance Iterator) = Inr True \<and>
   object_iter (Value (VInt 3)) = Inl (TypeError ''int object is not iterable'') \<and>
   is_iterable_object (Value (VInt 3)) = Inr False \<and>
   \<not> isinstance_leaf closed_file \<and>
   object_iter closed_file = Inl (ValueError ''I/O operation on closed file.'' []) \<and>
   (\<forall>m. ValueError ''I/O operation on closed file.'' [] \<noteq> TypeError m) \<and>
   is_iterable_object closed_file = Inl (ValueError ''I/O operation on closed file.'' [])"
proof -
  have h1: "isinstance_leaf (Value (VStr ''ab''))" by simp
  have h2: "\<not> isinstance_leaf (Instance Iterator) \<and> supports_iteration_object (Instance Iterator)"
    by (simp add: supports_iteration_object_def)
  have h3: "object_iter (Value (VInt 3)) = Inl (TypeError ''int object is not iterable'')" by simp
  have h4: "\<not> isinstance_leaf closed_file \<and>
      object_iter closed_file = Inl (ValueError ''I/O operation on closed file.'' []) \<and>
      (\<forall>m. ValueError ''I/O operation on closed file.'' [] \<noteq> TypeError m)"
    by (simp add: closed_file_def)
  have c1: "is_iterable_object (Value (VStr ''ab'')) = Inr False"
    using is_iterable_classification [of "Value (VStr ''ab'')", THEN conjunct1] h1 by (rule mp)
  have c2: "is_iterable_object (Instance Iterator) = Inr True"
    using is_iterable_classification [of "Instance Iterator", THEN conjunct2, THEN conjunct1] h2
    by (rule mp)
  have c3: "is_iterable_object (Value (VInt 3)) = Inr False"
    using is_iterable_classification [of "Value (VInt 3)" "''int object is not iterable''",
        THEN conjunct2, THEN conjunct2, THEN conjunct1] h3
    by (rule mp)
  have c4: "is_iterable_object closed_file = Inl (ValueError ''I/O operation on closed file.'' [])"
    using is_iterable_classification [of closed_file _ "ValueError ''I/O operation on closed file.'' []",
        THEN conjunct2, THEN conjunct2, THEN conjunct2, THEN conjunct1] h4
    by (rule mp)
  from h1 h2 h3 h4 c1 c2 c3 c4 show ?thesis by (intro conjI) (erule conjE | assumption)+
qed

subsection \<open>Leaves\<close>

text \<open>
  Claim C7. For a value that \<open>is_iterable\<close> classifies as not iterable,
  \<open>flatten_iterable\<close> returns the one-element list holding the value itself; this is so
  for every string, numpy array and tensor handle, although strings and arrays can be
  iterated.
\<close>

theorem flatten_leaf:
  "(is_iterable v = Inr False \<longrightarrow> flatten_iterable v = Inr [v]) \<and>
   flatten_iterable (VStr s) = Inr [VStr s] \<and>
   flatten_iterable (VNdarray a) = Inr [VNdarray a] \<and>
   flatten_iterable (VTensor h) = Inr [VTensor h]"
  by (simp add: flatten_iterable_def is_iterable_composite)

theorem flatten_leaf_witness:
  "is_iterable (VInt 3) = Inr False \<and> flatten_iterable (VInt 3) = Inr [VInt 3]"
  using flatten_leaf [of "VInt 3"] by (simp add: is_iterable_composite)

subsection \<open>The checks of \<open>pack_iterable_as\<close>\<close>

text \<open>
  Claim C9. For every template, \<open>pack_iterable_as\<close> raises
  \<open>TypeError("flat_iterable must be an iterable")\<close> when \<open>flat_iterable\<close> is not one of the
  container kinds; the result is the error and nothing else.
\<close>

theorem pack_flat_not_iterable:
  "\<not> composite flat_iterable \<Longrightarrow>
   pack_iterable_as structure flat_iterable = Inl (TypeError ''flat_iterable must be an iterable'')"
  by (simp add: pack_iterable_as_def is_iterable_composite)

theorem pack_flat_not_iterable_witness:
  "\<not> composite (VInt 5) \<and>
   pack_iterable_as (VList [VInt 1]) (VInt 5) = Inl (TypeError ''flat_iterable must be an iterable'')"
  using pack_flat_not_iterable [of "VInt 5" "VList [VInt 1]"] by simp

text \<open>
  Claim C10. For every template, a string, a numpy array or a tensor handle passed as
  \<open>flat_iterable\<close> is rejected with the same \<open>TypeError\<close>, although a string and an
  array support iteration.
\<close>

theorem pack_flat_opaque_leaf:
  "pack_iterable_as structure (VStr s) = Inl (TypeError ''flat_iterable must be an iterable'') \<and>
   pack_iterable_as structure (VNdarray a) = Inl (TypeError ''flat_iterable must be an iterable'') \<and>
   pack_iterable_as structure (VTensor h) = Inl (TypeError ''flat_iterable must be an iterable'') \<and>
   supports_iteration (VStr s) \<and> supports_iteration (VNdarray a)"
  by (simp add: pack_iterable_as_def is_iterable_composite supports_iteration_def)

text \<open>
  Claim C5. For a template that is not a container, \<open>pack_iterable_as\<close> returns the
  single element of a one-element list or tuple, and raises the \<open>ValueError\<close> of the
  scalar case, carrying the length, for a flat container of any other length.
\<close>

theorem pack_scalar:
  "\<not> composite structure \<longrightarrow>
     pack_iterable_as structure (VList [x]) = Inr x \<and>
     pack_iterable_as structure (VTuple [x]) = Inr x \<and>
     (composite flat \<and> py_len flat = Inr n \<and> n \<noteq> 1 \<longrightarrow>
        pack_iterable_as structure flat =
          Inl (ValueError ''Structure is a scalar but len(flat_iterable) == %d > 1'' [ArgD n]))"
  by (simp add: pack_iterable_as_def is_iterable_composite seq_getitem_def)

theorem pack_scalar_witness:
  "\<not> composite (VInt 5) \<and>
   pack_iterable_as (VInt 5) (VList [VInt 7]) = Inr (VInt 7) \<and>
   composite (VList [VInt 7, VInt 8]) \<and> py_len (VList [VInt 7, VInt 8]) = Inr 2 \<and> (2::nat) \<noteq> 1 \<and>
   pack_iterable_as (VInt 5) (VList [VInt 7, VInt 8]) =
     Inl (ValueError ''Structure is a scalar but len(flat_iterable) == %d > 1'' [ArgD 2])"
  using pack_scalar [of "VInt 5" "VInt 7" "VList [VInt 7, VInt 8]" 2] by simp

text \<open>
  Claim C4. For a container template whose flattening has a number of leaves different
  from the length of the flat container, \<open>pack_iterable_as\<close> raises the \<open>ValueError\<close> of
  the count mismatch; its message is formatted from both counts, the template and the
  flat values.
\<close>

theorem pack_arity_mismatch:
  "composite structure \<Longrightarrow> flatten_iterable structure = Inr leaves \<Longrightarrow>
   composite flat \<Longrightarrow> py_len flat = Inr n \<Longrightarrow> n \<noteq> length leaves \<Longrightarrow>
   pack_iterable_as structure flat =
     Inl (ValueError
            ''Could not pack iterable. Structure had %d elements, but flat_iterable had %d elements.  Structure: %s, flat_iterable: %s.''
            [ArgD (length leaves), ArgD n, ArgS structure, ArgS flat])"
  by (simp add: pack_iterable_as_def is_iterable_composite)

theorem pack_arity_mismatch_witness:
  "composite (VDict PlainDict [(KStr ''a'', VInt 1), (KStr ''b'', VInt 2)]) \<and>
   flatten_iterable (VDict PlainDict [(KStr ''a'', VInt 1), (KStr ''b'', VInt 2)]) = Inr [VInt 1, VInt 2] \<and>
   composite (VList [VInt 10]) \<and> py_len (VList [VInt 10]) = Inr 1 \<and> (1::nat) \<noteq> length [VInt 1, VInt 2] \<and>
   pack_iterable_as (VDict PlainDict [(KStr ''a'', VInt 1), (KStr ''b'', VInt 2)]) (VList [VInt 10]) =
     Inl (ValueError
            ''Could not pack iterable. Structure had %d elements, but flat_iterable had %d elements.  Structure: %s, flat_iterable: %s.''
            [ArgD 2, ArgD 1, ArgS (VDict PlainDict [(KStr ''a'', VInt 1), (KStr ''b'', VInt 2)]), ArgS (VList [VInt 10])])"
proof -
  have f: "flatten_iterable (VDict PlainDict [(KStr ''a'', VInt 1), (KStr ''b'', VInt 2)]) = Inr [VInt 1, VInt 2]"
    by code_simp
  show ?thesis
    using pack_arity_mismatch [of "VDict PlainDict [(KStr ''a'', VInt 1), (KStr ''b'', VInt 2)]"
        "[VInt 1, VInt 2]" "VList [VInt 10]" 1] f
    by simp
qed

subsection \<open>Round trip\<close>

text \<open>
  Claim C1. For every structure built from lists, tuples, namedtuples and dictionaries
  with pairwise comparable keys over scalar leaves, flattening succeeds and packing the
  flat list into the structure returns the structure itself: the same container kinds,
  the same nesting, the same keys in the same native order and the same leaves.
\<close>

theorem pack_of_flatten_is_identity:
  "wellformed S \<Longrightarrow> sortable S \<Longrightarrow>
   \<exists>leaves. flatten_iterable S = Inr leaves \<and> pack_iterable_as S (VList leaves) = Inr S"
  using pack_flatten_roundtrip by blast

theorem pack_of_flatten_is_identity_witness:
  "wellformed example_nest \<and> sortable example_nest \<and>
   (\<exists>leaves. flatten_iterable example_nest = Inr leaves \<and>
              pack_iterable_as example_nest (VList leaves) = Inr example_nest)"
proof -
  have w: "wellformed example_nest" by (simp add: example_nest_def)
  have s: "sortable example_nest" by (simp add: example_nest_def pc_example)
  show ?thesis using pack_of_flatten_is_identity [OF w s] w s by blast
qed

subsection \<open>Order of the flat list\<close>

text \<open>
  Claim C2. \<open>flatten_iterable\<close> returns the leaves depth-first and left to right,
  children of sequences and records in positional order and values of a mapping in
  ascending order of their keys, whatever the native order of the mapping; so
  \<open>{"b": 2, "a": 1}\<close> flattens to \<open>[1, 2]\<close> and
  \<open>["a", {"y": 2, "x": 1}, ("b", "c")]\<close> to \<open>["a", 1, 2, "b", "c"]\<close>.
\<close>

theorem flatten_order:
  "(wellformed v \<and> sortable v \<longrightarrow> flatten_iterable v = Inr (dfs_leaves v)) \<and>
   (distinct (map fst d) \<and> distinct (map fst d') \<and> set d = set d' \<longrightarrow>
      dfs_leaves (VDict kd d) = dfs_leaves (VDict kd' d')) \<and>
   flatten_iterable (VDict PlainDict [(KStr ''b'', VInt 2), (KStr ''a'', VInt 1)]) =
     Inr [VInt 1, VInt 2] \<and>
   flatten_iterable example_nest = Inr [VStr ''a'', VInt 1, VInt 2, VStr ''b'', VStr ''c'']"
proof (intro conjI)
  show "wellformed v \<and> sortable v \<longrightarrow> flatten_iterable v = Inr (dfs_leaves v)"
    by (simp add: flatten_iterable_characterisation)
  show "distinct (map fst d) \<and> distinct (map fst d') \<and> set d = set d' \<longrightarrow>
      dfs_leaves (VDict kd d) = dfs_leaves (VDict kd' d')"
    using dfs_leaves_native_order by blast
  show "flatten_iterable (VDict PlainDict [(KStr ''b'', VInt 2), (KStr ''a'', VInt 1)]) =
     Inr [VInt 1, VInt 2]"
    by code_simp
  show "flatten_iterable example_nest = Inr [VStr ''a'', VInt 1, VInt 2, VStr ''b'', VStr ''c'']"
    unfolding example_nest_def by code_simp
qed

theorem flatten_order_witness:
  "wellformed example_nest \<and> sortable example_nest \<and>
   flatten_iterable example_nest = Inr (dfs_leaves example_nest) \<and>
   distinct (map fst [(KStr ''b'', VInt 2), (KStr ''a'', VInt 1)]) \<and>
   distinct (map fst [(KStr ''a'', VInt 1), (KStr ''b'', VInt 2)]) \<and>
   set [(KStr ''b'', VInt 2), (KStr ''a'', VInt 1)] = set [(KStr ''a'', VInt 1), (KStr ''b'', VInt 2)] \<and>
   dfs_leaves (VDict OrderedDict [(KStr ''b'', VInt 2), (KStr ''a'', VInt 1)]) =
     dfs_leaves (VDict PlainDict [(KStr ''a'', VInt 1), (KStr ''b'', VInt 2)])"
proof -
  have w: "wellformed example_nest" by (simp add: example_nest_def)
  have s: "sortable example_nest" by (simp add: example_nest_def pc_example)
  have h: "distinct (map fst [(KStr ''b'', VInt 2), (KStr ''a'', VInt 1)]) \<and>
     distinct (map fst [(KStr ''a'', VInt 1), (KStr ''b'', VInt 2)]) \<and>
     set [(KStr ''b'', VInt 2), (KStr ''a'', VInt 1)] = set [(KStr ''a'', VInt 1), (KStr ''b'', VInt 2)]"
    by auto
  show ?thesis
    using flatten_order [of example_nest "[(KStr ''b'', VInt 2), (KStr ''a'', VInt 1)]"
        "[(KStr ''a'', VInt 1), (KStr ''b'', VInt 2)]" OrderedDict PlainDict] w s h
    by blast
qed

subsection \<open>Rebuilding a mapping\<close>

text \<open>
  Claim C3. \<open>_iterable_like\<close> rebuilds a mapping of the kind of the template with the
  keys of the template in their native order, the \<open>i\<close>-th argument going to the
  \<open>i\<close>-th smallest key. Hence flattening a mapping of one kind and packing the result
  into a template of another kind with the same keys gives the key-to-value
  associations of the flattened mapping (stated for mappings whose values are leaves).
\<close>

theorem mapping_reconstruction:
  "(distinct (map fst d) \<and> pairwise_comparable (map fst d) \<and> length args = length d \<longrightarrow>
      (\<exists>d'. iterable_like (VDict kd d) args = Inr (VDict kd d') \<and> map fst d' = map fst d \<and>
            (\<forall>i < length d. map_of d' (sort (map fst d) ! i) = Some (args ! i)))) \<and>
   (distinct (map fst d1) \<and> distinct (map fst d2) \<and> pairwise_comparable (map fst d1) \<and>
    set (map fst d1) = set (map fst d2) \<and>
    (\<forall>p \<in> set d1. \<not> composite (snd p)) \<and> (\<forall>p \<in> set d2. \<not> composite (snd p)) \<longrightarrow>
      (\<exists>leaves d'. flatten_iterable (VDict k1 d1) = Inr leaves \<and>
         pack_iterable_as (VDict k2 d2) (VList leaves) = Inr (VDict k2 d') \<and>
         map fst d' = map fst d2 \<and> map_of d' = map_of d1))"
proof (intro conjI impI)
  assume "distinct (map fst d) \<and> pairwise_comparable (map fst d) \<and> length args = length d"
  then show "\<exists>d'. iterable_like (VDict kd d) args = Inr (VDict kd d') \<and> map fst d' = map fst d \<and>
            (\<forall>i < length d. map_of d' (sort (map fst d) ! i) = Some (args ! i))"
    using iterable_like_positional by blast
next
  assume a: "distinct (map fst d1) \<and> distinct (map fst d2) \<and> pairwise_comparable (map fst d1) \<and>
    set (map fst d1) = set (map fst d2) \<and>
    (\<forall>p \<in> set d1. \<not> composite (snd p)) \<and> (\<forall>p \<in> set d2. \<not> composite (snd p))"
  then have "\<forall>p \<in> set d1. wellformed (snd p)" "\<forall>p \<in> set d1. sortable (snd p)"
    using wellformed_leaf sortable_leaf by blast+
  with a have "wellformed (VDict k1 d1)" "sortable (VDict k1 d1)" by simp_all
  then have f: "flatten_iterable (VDict k1 d1) = Inr (dfs_leaves (VDict k1 d1))"
    by (simp add: flatten_iterable_characterisation del: dfs_leaves.simps wellformed.simps sortable.simps)
  from a obtain d' where "pack_iterable_as (VDict k2 d2) (VList (dfs_leaves (VDict k1 d1))) = Inr (VDict k2 d')"
      "map fst d' = map fst d2" "map_of d' = map_of d1"
    using pack_cross_kind[of d1 d2 k2 k1] by blast
  with f show "\<exists>leaves d'. flatten_iterable (VDict k1 d1) = Inr leaves \<and>
         pack_iterable_as (VDict k2 d2) (VList leaves) = Inr (VDict k2 d') \<and>
         map fst d' = map fst d2 \<and> map_of d' = map_of d1"
    by blast
qed

theorem mapping_reconstruction_witness:
  "(distinct (map fst ordered_ba) \<and> pairwise_comparable (map fst ordered_ba) \<and>
    length [VInt 10, VInt 20] = length ordered_ba) \<and>
   (\<exists>d'. iterable_like (VDict OrderedDict ordered_ba) [VInt 10, VInt 20] =
            Inr (VDict OrderedDict d') \<and> map fst d' = map fst ordered_ba \<and>
          (\<forall>i < length ordered_ba.
             map_of d' (sort (map fst ordered_ba) ! i) = Some ([VInt 10, VInt 20] ! i))) \<and>
   (distinct (map fst ordered_ba) \<and> distinct (map fst plain_ab) \<and>
    pairwise_comparable (map fst ordered_ba) \<and>
    set (map fst ordered_ba) = set (map fst plain_ab) \<and>
    list_all (\<lambda>p. \<not> composite (snd p)) ordered_ba \<and>
    list_all (\<lambda>p. \<not> composite (snd p)) plain_ab) \<and>
   (\<exists>leaves d'. flatten_iterable (VDict OrderedDict ordered_ba) = Inr leaves \<and>
      pack_iterable_as (VDict PlainDict plain_ab) (VList leaves) = Inr (VDict PlainDict d') \<and>
      map fst d' = map fst plain_ab \<and> map_of d' = map_of ordered_ba)"
proof -
  have pc: "pairwise_comparable (map fst ordered_ba)"
    by (simp add: ordered_ba_def pairwise_comparable_def comparable_def)
  have h1: "distinct (map fst ordered_ba) \<and> pairwise_comparable (map fst ordered_ba) \<and>
    length [VInt 10, VInt 20] = length ordered_ba"
    using pc by (simp add: ordered_ba_def)
  have h2: "distinct (map fst ordered_ba) \<and> distinct (map fst plain_ab) \<and>
    pairwise_comparable (map fst ordered_ba) \<and>
    set (map fst ordered_ba) = set (map fst plain_ab) \<and>
    (\<forall>p \<in> set ordered_ba. \<not> composite (snd p)) \<and> (\<forall>p \<in> set plain_ab. \<not> composite (snd p))"
    using pc by (auto simp: ordered_ba_def plain_ab_def)
  have h3: "list_all (\<lambda>p. \<not> composite (snd p)) ordered_ba \<and>
    list_all (\<lambda>p. \<not> composite (snd p)) plain_ab"
    by (simp add: ordered_ba_def plain_ab_def)
  show ?thesis
    using mapping_reconstruction [of ordered_ba "[VInt 10, VInt 20]" OrderedDict
        ordered_ba plain_ab OrderedDict PlainDict] h1 h2 h3
    by blast
qed

subsection \<open>Unsortable keys\<close>




end
